theory Spec2Isabelle
  imports Complex_Main
begin

section \<open>Python values, errors and dictionaries\<close>

text \<open>
  The values that a cookiecutter context can hold. \<^verbatim>\<open>base_context\<close> is the parsed
  \<^verbatim>\<open>cookiecutter.json\<close> (\<^verbatim>\<open>dict[str, object]\<close>); the values that
  \<^verbatim>\<open>generate_combinations\<close> writes itself are always strings.
\<close>

datatype pyobj = PyStr string | PyInt int | PyBool bool | PyNone | PyList "pyobj list"

text \<open>
  Every exception of \<^verbatim>\<open>core/combinations.py\<close>, \<^verbatim>\<open>core/template.py\<close> and of
  \<^verbatim>\<open>zip(..., strict=True)\<close> is a \<^verbatim>\<open>ValueError\<close>; they differ in the message only.
  The message is kept structured (the parts that the f-string interpolates).
  \<open>Raised\<close> is an exception that a plugin's hook implementation raises.
\<close>

datatype msg =
    Unknown_option string
  | Invalid_values string "string list" "string list"
  | No_choices string
  | Default_not_in_choices string string "string list"
  | Zip_length_mismatch

datatype error = ValueError msg | Raised string

text \<open>
  A Python \<^verbatim>\<open>dict\<close> keeps its keys in insertion order and holds each key once: an
  association list with distinct keys. \<^verbatim>\<open>d[k] = v\<close> overwrites the value in place
  when the key is present and appends the pair otherwise.
\<close>

type_synonym ('k, 'v) dict = "('k \<times> 'v) list"

definition is_dict :: "('k, 'v) dict \<Rightarrow> bool" where
  "is_dict d = distinct (map fst d)"

fun dict_set :: "'k \<Rightarrow> 'v \<Rightarrow> ('k, 'v) dict \<Rightarrow> ('k, 'v) dict" where
  "dict_set k v [] = [(k, v)]"
| "dict_set k v ((k', v') # d) =
     (if k' = k then (k', v) # d else (k', v') # dict_set k v d)"

definition dict_contains :: "'k \<Rightarrow> ('k, 'v) dict \<Rightarrow> bool" where
  "dict_contains k d = (map_of d k \<noteq> None)"

text \<open>
  \<^verbatim>\<open>zip(xs, ys, strict=True)\<close> raises \<^verbatim>\<open>ValueError\<close> when the two lengths differ.
  The loops that consume it here only build local lists, so that raising after the
  common prefix and raising at once give the same result.
\<close>

fun zip_strict :: "'a list \<Rightarrow> 'b list \<Rightarrow> error + ('a \<times> 'b) list" where
  "zip_strict [] [] = Inr []"
| "zip_strict (x # xs) (y # ys) =
     (case zip_strict xs ys of Inl e \<Rightarrow> Inl e | Inr ps \<Rightarrow> Inr ((x, y) # ps))"
| "zip_strict _ _ = Inl (ValueError Zip_length_mismatch)"

text \<open>
  \<^verbatim>\<open>itertools.product(*pools)\<close>, as the Python documentation defines it:
  \<^verbatim>\<open>
  result = [[]]
  for pool in pools:
      result = [x+[y] for x in result for y in pool]
  \<close>
\<close>

definition product_step :: "'a list \<Rightarrow> 'a list list \<Rightarrow> 'a list list" where
  "product_step pool result = concat (map (\<lambda>x. map (\<lambda>y. x @ [y]) pool) result)"

definition itertools_product :: "'a list list \<Rightarrow> 'a list list" where
  "itertools_product pools = fold product_step pools [[]]"

section \<open>The option model (\<^verbatim>\<open>core/template.py\<close>)\<close>

record TemplateOption =
  name :: string
  choices :: "string list"
  default :: string

text \<open>
  \<^verbatim>\<open>TemplateOption.__post_init__\<close>: construction fails when there is no choice or
  when the default is not one of the choices.
\<close>

definition TemplateOption_init :: "string \<Rightarrow> string list \<Rightarrow> string \<Rightarrow> error + TemplateOption" where
  "TemplateOption_init n cs d =
     (if cs = [] then Inl (ValueError (No_choices n))
      else if d \<notin> set cs then Inl (ValueError (Default_not_in_choices d n cs))
      else Inr \<lparr>name = n, choices = cs, default = d\<rparr>)"

text \<open>The options that the constructor can return.\<close>

definition option_ok :: "TemplateOption \<Rightarrow> bool" where
  "option_ok opt = (choices opt \<noteq> [] \<and> default opt \<in> set (choices opt))"

section \<open>The combination engine (\<^verbatim>\<open>core/combinations.py\<close>)\<close>

type_synonym selections = "(string, string list) dict"
type_synonym cookiecutter_ctx = "(string, pyobj) dict"

text \<open>\<^verbatim>\<open>option_map = {opt.name: opt for opt in options}\<close>\<close>

definition make_option_map :: "TemplateOption list \<Rightarrow> (string, TemplateOption) dict" where
  "make_option_map options = fold (\<lambda>opt m. dict_set (name opt) opt m) options []"

text \<open>
  The validation loop over \<^verbatim>\<open>selections.items()\<close>: the first entry, in the
  dictionary's order, with an unknown name or with a value outside the choices raises.
\<close>

fun validate_selections :: "(string, TemplateOption) dict \<Rightarrow> selections \<Rightarrow> error option" where
  "validate_selections option_map [] = None"
| "validate_selections option_map ((option_name, selected_values) # rest) =
     (case map_of option_map option_name of
        None \<Rightarrow> Some (ValueError (Unknown_option option_name))
      | Some opt \<Rightarrow>
          (let invalid_values = filter (\<lambda>v. v \<notin> set (choices opt)) selected_values
           in if invalid_values \<noteq> []
              then Some (ValueError (Invalid_values option_name invalid_values (choices opt)))
              else validate_selections option_map rest))"

text \<open>
  \<^verbatim>\<open>option.name in selections and len(selections[option.name]) > 0\<close>
\<close>

definition varies :: "selections \<Rightarrow> TemplateOption \<Rightarrow> bool" where
  "varies sel opt = (case map_of sel (name opt) of None \<Rightarrow> False | Some vs \<Rightarrow> length vs > 0)"

text \<open>
  The loop that fills \<^verbatim>\<open>varying_options\<close> and \<^verbatim>\<open>varying_values\<close>, kept as one
  list of pairs (the two lists of the source are its two projections).
\<close>

fun varying :: "TemplateOption list \<Rightarrow> selections \<Rightarrow> (string \<times> string list) list" where
  "varying [] sel = []"
| "varying (opt # options) sel =
     (case map_of sel (name opt) of
        None \<Rightarrow> varying options sel
      | Some vs \<Rightarrow> if length vs > 0 then (name opt, vs) # varying options sel
                   else varying options sel)"

text \<open>\<^verbatim>\<open>for option in options: result_context[option.name] = option.default\<close>\<close>

definition set_all_defaults :: "TemplateOption list \<Rightarrow> cookiecutter_ctx \<Rightarrow> cookiecutter_ctx" where
  "set_all_defaults options c = fold (\<lambda>opt c. dict_set (name opt) (PyStr (default opt)) c) options c"

text \<open>
  \<^verbatim>\<open>for option in options:
      if option.name not in selections or len(selections[option.name]) == 0:
          combo_context[option.name] = option.default\<close>
\<close>

definition set_fixed_defaults :: "TemplateOption list \<Rightarrow> selections \<Rightarrow> cookiecutter_ctx \<Rightarrow> cookiecutter_ctx" where
  "set_fixed_defaults options sel c =
     fold (\<lambda>opt c. if \<not> varies sel opt then dict_set (name opt) (PyStr (default opt)) c else c)
       options c"

text \<open>
  \<^verbatim>\<open>for option_name, value in zip(varying_options, value_tuple, strict=True):
      combo_context[option_name] = value\<close>
\<close>

definition apply_tuple :: "(string \<times> string) list \<Rightarrow> cookiecutter_ctx \<Rightarrow> cookiecutter_ctx" where
  "apply_tuple pairs c = fold (\<lambda>(option_name, v) c. dict_set option_name (PyStr v) c) pairs c"

text \<open>The body of the loop over the product tuples, for one tuple.\<close>

definition combo_context :: "TemplateOption list \<Rightarrow> selections \<Rightarrow> cookiecutter_ctx \<Rightarrow> string list
     \<Rightarrow> string list \<Rightarrow> error + cookiecutter_ctx" where
  "combo_context options sel base varying_options value_tuple =
     (case zip_strict varying_options value_tuple of
        Inl e \<Rightarrow> Inl e
      | Inr pairs \<Rightarrow> Inr (set_fixed_defaults options sel (apply_tuple pairs base)))"

fun combinations_loop :: "TemplateOption list \<Rightarrow> selections \<Rightarrow> cookiecutter_ctx \<Rightarrow> string list
     \<Rightarrow> string list list \<Rightarrow> error + cookiecutter_ctx list" where
  "combinations_loop options sel base varying_options [] = Inr []"
| "combinations_loop options sel base varying_options (value_tuple # tuples) =
     (case combo_context options sel base varying_options value_tuple of
        Inl e \<Rightarrow> Inl e
      | Inr c \<Rightarrow>
          (case combinations_loop options sel base varying_options tuples of
             Inl e \<Rightarrow> Inl e
           | Inr cs \<Rightarrow> Inr (c # cs)))"

definition generate_combinations :: "TemplateOption list \<Rightarrow> selections \<Rightarrow> cookiecutter_ctx option
     \<Rightarrow> error + cookiecutter_ctx list" where
  "generate_combinations options sel base_context =
     (case validate_selections (make_option_map options) sel of
        Some e \<Rightarrow> Inl e
      | None \<Rightarrow>
          (let base = (case base_context of None \<Rightarrow> [] | Some b \<Rightarrow> b);
               vs = varying options sel
           in if vs = [] then Inr [set_all_defaults options base]
              else combinations_loop options sel base (map fst vs)
                     (itertools_product (map snd vs))))"

definition estimate_combination_count :: "TemplateOption list \<Rightarrow> selections \<Rightarrow> int" where
  "estimate_combination_count options sel =
     (let option_map = make_option_map options
      in fold (\<lambda>(option_name, selected_values) count.
                 if dict_contains option_name option_map \<and> length selected_values > 0
                 then count * int (length selected_values) else count)
           sel 1)"

section \<open>The plugin data model (\<^verbatim>\<open>plugins/models.py\<close>)\<close>

datatype TasterStatus = SUCCESS | FAILURE | SKIPPED | ERROR

text \<open>
  The field \<^verbatim>\<open>name\<close> of \<^verbatim>\<open>TemplateMetadata\<close> is \<open>template_name\<close> here, and the fields
  of \<^verbatim>\<open>TasterContext\<close> carry the prefix \<open>tc_\<close>: a record field is a constant of the
  theory, and \<open>name\<close>, \<open>cookiecutter_context\<close> and \<open>template_metadata\<close> are fields of
  \<^verbatim>\<open>TemplateOption\<close> and \<^verbatim>\<open>ProjectInfo\<close>. A \<^verbatim>\<open>Path\<close> is its string.
\<close>

record TemplateMetadata =
  source :: string
  template_name :: "string option"
  version :: "string option"

record TasterContext =
  tc_cookiecutter_context :: cookiecutter_ctx
  tc_template_metadata :: TemplateMetadata

record ProjectInfo =
  path :: string
  cookiecutter_context :: cookiecutter_ctx
  template_metadata :: TemplateMetadata

definition taster_context :: "ProjectInfo \<Rightarrow> TasterContext" where
  "taster_context project_info =
     \<lparr>tc_cookiecutter_context = cookiecutter_context project_info,
      tc_template_metadata = template_metadata project_info\<rparr>"

text \<open>
  \<^verbatim>\<open>duration_seconds\<close> is a Python float; nothing here computes with it, and it is kept
  as a real number.
\<close>

record TasterResult =
  taster_name :: string
  status :: TasterStatus
  message :: string
  logs :: "string list"
  duration_seconds :: real

section \<open>The plugin manager (\<^verbatim>\<open>plugins/hookspecs.py\<close>, \<^verbatim>\<open>plugins/manager.py\<close>)\<close>

text \<open>
  A plugin implements the three hooks of \<^verbatim>\<open>hookspecs.py\<close>. \<^verbatim>\<open>get_taster_name\<close> and
  \<^verbatim>\<open>can_handle\<close> return a value of their declared type; \<^verbatim>\<open>test_project\<close> returns a
  result or raises.
\<close>

record Taster =
  get_taster_name :: string
  can_handle :: "TasterContext \<Rightarrow> bool"
  test_project :: "ProjectInfo \<Rightarrow> error + TasterResult"

text \<open>
  The registered plugins, in the order of their registration.
  \<^verbatim>\<open>pluggy\<close> is a library outside this repository; its documented behaviour is taken as
  it is: \<^verbatim>\<open>pm.hook.h(...)\<close> calls the implementations of \<^verbatim>\<open>h\<close> of all registered
  plugins, the most recently registered first, and returns the list of their results in
  the order of the calls; an exception that an implementation raises ends the call and
  propagates to the caller.
\<close>

type_synonym PluginManager = "Taster list"

definition register_plugin :: "PluginManager \<Rightarrow> Taster \<Rightarrow> PluginManager" where
  "register_plugin pm plugin = pm @ [plugin]"

definition hook_impls :: "PluginManager \<Rightarrow> Taster list" where
  "hook_impls pm = rev pm"

fun call_all :: "(error + 'a) list \<Rightarrow> error + 'a list" where
  "call_all [] = Inr []"
| "call_all (Inl e # calls) = Inl e"
| "call_all (Inr r # calls) =
     (case call_all calls of Inl e \<Rightarrow> Inl e | Inr rs \<Rightarrow> Inr (r # rs))"

definition hook_get_taster_name :: "PluginManager \<Rightarrow> string list" where
  "hook_get_taster_name pm = map get_taster_name (hook_impls pm)"

definition hook_can_handle :: "PluginManager \<Rightarrow> TasterContext \<Rightarrow> bool list" where
  "hook_can_handle pm ctx = map (\<lambda>plugin. can_handle plugin ctx) (hook_impls pm)"

definition hook_test_project :: "PluginManager \<Rightarrow> ProjectInfo \<Rightarrow> error + TasterResult list" where
  "hook_test_project pm project_info =
     call_all (map (\<lambda>plugin. test_project plugin project_info) (hook_impls pm))"

text \<open>\<^verbatim>\<open>[name for name in results if name]\<close>: an empty name is dropped.\<close>

definition get_taster_names :: "PluginManager \<Rightarrow> string list" where
  "get_taster_names pm = filter (\<lambda>n. n \<noteq> []) (hook_get_taster_name pm)"

definition get_applicable_tasters :: "PluginManager \<Rightarrow> TasterContext \<Rightarrow> error + string list" where
  "get_applicable_tasters pm ctx =
     (let names = get_taster_names pm;
          can_handle_results = hook_can_handle pm ctx
      in case zip_strict names can_handle_results of
           Inl e \<Rightarrow> Inl e
         | Inr pairs \<Rightarrow> Inr (map fst (filter (\<lambda>(n, can_handle). can_handle) pairs)))"

definition run_tasters :: "PluginManager \<Rightarrow> ProjectInfo \<Rightarrow> string list option
     \<Rightarrow> error + TasterResult list" where
  "run_tasters pm project_info taster_names =
     (case (case taster_names of
              None \<Rightarrow> get_applicable_tasters pm (taster_context project_info)
            | Some names \<Rightarrow> Inr names) of
        Inl e \<Rightarrow> Inl e
      | Inr names \<Rightarrow>
          (let all_names = get_taster_names pm
           in case hook_test_project pm project_info of
                Inl e \<Rightarrow> Inl e
              | Inr all_results \<Rightarrow>
                  (case zip_strict all_names all_results of
                     Inl e \<Rightarrow> Inl e
                   | Inr pairs \<Rightarrow>
                       Inr (map snd (filter (\<lambda>(n, result). n \<in> set names) pairs)))))"

section \<open>Generation and the run coordinator (\<^verbatim>\<open>core/generator.py\<close>, \<^verbatim>\<open>tui/screens/execution.py\<close>)\<close>

text \<open>
  The field \<^verbatim>\<open>context\<close> of \<^verbatim>\<open>GenerationResult\<close> is \<open>used_context\<close> here.
\<close>

record GenerationResult =
  success :: bool
  project_path :: "string option"
  error :: "string option"
  used_context :: "cookiecutter_ctx option"

text \<open>
  \<^verbatim>\<open>cookiecutter(...)\<close> is the templating library: it writes a project and returns its
  path, or raises. Its outcome is not determined by the program, and the outcome of the
  call number \<open>k\<close> of a run on a context is a parameter: \<open>Inr\<close> the path, \<open>Inl\<close> the text
  of the exception. Each function that calls it returns the number of calls made so far.
\<close>

type_synonym cookiecutter = "nat \<Rightarrow> cookiecutter_ctx \<Rightarrow> string + string"

definition generate :: "cookiecutter \<Rightarrow> nat \<Rightarrow> cookiecutter_ctx \<Rightarrow> GenerationResult \<times> nat" where
  "generate cc k ctx =
     (case cc k ctx of
        Inr p \<Rightarrow> (\<lparr>success = True, project_path = Some p, error = None, used_context = Some ctx\<rparr>, Suc k)
      | Inl e \<Rightarrow> (\<lparr>success = False, project_path = None, error = Some e, used_context = Some ctx\<rparr>, Suc k))"

definition generate_with_info :: "cookiecutter \<Rightarrow> nat \<Rightarrow> TemplateMetadata \<Rightarrow> cookiecutter_ctx
     \<Rightarrow> ProjectInfo option \<times> nat" where
  "generate_with_info cc k md ctx =
     (let (result, k') = generate cc k ctx
      in case project_path result of
           Some p \<Rightarrow>
             if success result
             then (Some \<lparr>path = p, cookiecutter_context = ctx, template_metadata = md\<rparr>, k')
             else (None, k')
         | None \<Rightarrow> (None, k'))"

text \<open>Python's \<^verbatim>\<open>all\<close> over a list of truth values.\<close>

fun py_all :: "bool list \<Rightarrow> bool" where
  "py_all [] = True"
| "py_all (b # bs) = (if b then py_all bs else False)"

text \<open>\<^verbatim>\<open>str(x)\<close> of an optional string, as the f-string prints it.\<close>

definition str_opt :: "string option \<Rightarrow> string" where
  "str_opt x = (case x of None \<Rightarrow> ''None'' | Some s \<Rightarrow> s)"

type_synonym run_result = "cookiecutter_ctx \<times> bool \<times> string list"

text \<open>
  The body of the loop of \<^verbatim>\<open>ExecutionScreen._start_execution\<close> for one context: the
  entry that it appends to \<^verbatim>\<open>self.results\<close>. The updates of the widgets and the sleep
  do not touch the results and are left out.
\<close>

definition run_configuration :: "PluginManager \<Rightarrow> TemplateMetadata \<Rightarrow> cookiecutter \<Rightarrow> nat
     \<Rightarrow> cookiecutter_ctx \<Rightarrow> error + run_result \<times> nat" where
  "run_configuration plugin_manager md cc k ctx =
     (let (result, k1) = generate cc k ctx
      in if \<not> success result \<or> project_path result = None
         then Inr ((ctx, False, [''Generation failed: '' @ str_opt (error result)]), k1)
         else
           (let (project_info, k2) = generate_with_info cc k1 md ctx
            in case project_info of
                 None \<Rightarrow> Inr ((ctx, False, [''Failed to create project info'']), k2)
               | Some info \<Rightarrow>
                   (case run_tasters plugin_manager info None of
                      Inl e \<Rightarrow> Inl e
                    | Inr taster_results \<Rightarrow>
                        Inr ((ctx,
                              py_all (map (\<lambda>r. status r = SUCCESS) taster_results),
                              map (\<lambda>r. taster_name r @ '': '' @ message r) taster_results),
                             k2))))"

fun execution_loop :: "PluginManager \<Rightarrow> TemplateMetadata \<Rightarrow> cookiecutter \<Rightarrow> nat
     \<Rightarrow> cookiecutter_ctx list \<Rightarrow> run_result list \<Rightarrow> error + run_result list" where
  "execution_loop plugin_manager md cc k [] results = Inr results"
| "execution_loop plugin_manager md cc k (ctx # combinations) results =
     (case run_configuration plugin_manager md cc k ctx of
        Inl e \<Rightarrow> Inl e
      | Inr (r, k') \<Rightarrow> execution_loop plugin_manager md cc k' combinations (results @ [r]))"

text \<open>
  \<^verbatim>\<open>ExecutionScreen._start_execution\<close>: the content of \<^verbatim>\<open>self.results\<close> at the end
  of the run. The registered plugins are those that \<^verbatim>\<open>load_plugins\<close> finds among the
  installed entry points; they are a parameter.
\<close>

definition start_execution :: "PluginManager \<Rightarrow> string \<Rightarrow> cookiecutter \<Rightarrow> TemplateOption list
     \<Rightarrow> selections \<Rightarrow> cookiecutter_ctx option \<Rightarrow> error + run_result list" where
  "start_execution plugin_manager template_source cc options sel base_context =
     (case generate_combinations options sel base_context of
        Inl e \<Rightarrow> Inl e
      | Inr combinations \<Rightarrow>
          execution_loop plugin_manager
            \<lparr>source = template_source, template_name = None, version = None\<rparr>
            cc 0 combinations [])"

section \<open>The notions of the specification\<close>

text \<open>
  The cartesian product as nested iteration, the earlier lists in the outer loops: the
  enumeration order that the specification names.
\<close>

fun spec_cartesian :: "'a list list \<Rightarrow> 'a list list" where
  "spec_cartesian [] = [[]]"
| "spec_cartesian (xs # xss) = concat (map (\<lambda>x. map (\<lambda>t. x # t) (spec_cartesian xss)) xs)"

text \<open>
  The option that a name denotes: what \<^verbatim>\<open>option_map[n]\<close> holds, the last declared
  option of that name.
\<close>

definition named_option :: "TemplateOption list \<Rightarrow> string \<Rightarrow> TemplateOption option" where
  "named_option options n = find (\<lambda>opt. name opt = n) (rev options)"

text \<open>The values selected for a name; none when the name has no entry.\<close>

definition selected :: "selections \<Rightarrow> string \<Rightarrow> string list" where
  "selected sel n = (case map_of sel n of None \<Rightarrow> [] | Some vs \<Rightarrow> vs)"

text \<open>
  A valid selection map: every key names a known option and every selected value is one
  of that option's choices.
\<close>

definition selections_valid :: "TemplateOption list \<Rightarrow> selections \<Rightarrow> bool" where
  "selections_valid options sel =
     list_all (\<lambda>(n, vs). case named_option options n of
                             None \<Rightarrow> False
                           | Some opt \<Rightarrow> list_all (\<lambda>v. v \<in> set (choices opt)) vs) sel"

text \<open>
  The base context merged with every option's default, the options overriding the base
  context.
\<close>

definition spec_default_context :: "cookiecutter_ctx \<Rightarrow> TemplateOption list \<Rightarrow> (string \<rightharpoonup> pyobj)" where
  "spec_default_context base options =
     (map_of base)(map name options [\<mapsto>] map (\<lambda>opt. PyStr (default opt)) options)"

text \<open>
  The varying options, in declaration order: their names and their value lists. The fixed
  options are the others.
\<close>

definition spec_varying_names :: "TemplateOption list \<Rightarrow> selections \<Rightarrow> string list" where
  "spec_varying_names options sel = map name (filter (varies sel) options)"

definition spec_varying_values :: "TemplateOption list \<Rightarrow> selections \<Rightarrow> string list list" where
  "spec_varying_values options sel = map (\<lambda>opt. selected sel (name opt)) (filter (varies sel) options)"

definition spec_fixed :: "TemplateOption list \<Rightarrow> selections \<Rightarrow> TemplateOption list" where
  "spec_fixed options sel = filter (\<lambda>opt. \<not> varies sel opt) options"

text \<open>
  The context of one product tuple: the base context, merged with the tuple's assignments,
  merged with the default of every fixed option; the later merge wins.
\<close>

definition spec_context :: "cookiecutter_ctx \<Rightarrow> TemplateOption list \<Rightarrow> selections \<Rightarrow> string list
     \<Rightarrow> (string \<rightharpoonup> pyobj)" where
  "spec_context base options sel t =
     ((map_of base)
       (spec_varying_names options sel [\<mapsto>] map PyStr t))
       (map name (spec_fixed options sel) [\<mapsto>] map (\<lambda>opt. PyStr (default opt)) (spec_fixed options sel))"

text \<open>A name is known when some option declares it.\<close>

definition known_option :: "TemplateOption list \<Rightarrow> string \<Rightarrow> bool" where
  "known_option options n = (n \<in> set (map name options))"

text \<open>
  The product of the lengths of the value lists, over the entries with a known name and a
  non-empty list.
\<close>

definition spec_estimate :: "TemplateOption list \<Rightarrow> selections \<Rightarrow> int" where
  "spec_estimate options sel =
     prod_list (map (\<lambda>(n, vs). int (length vs))
                  (filter (\<lambda>(n, vs). known_option options n \<and> vs \<noteq> []) sel))"

text \<open>
  The factor that a name contributes to the number of combinations: the number of its
  selected values, and 1 when it has none.
\<close>

definition weight :: "selections \<Rightarrow> string \<Rightarrow> nat" where
  "weight sel n = (if selected sel n = [] then 1 else length (selected sel n))"

section \<open>Example inputs\<close>

text \<open>The options of the test suite, and a base context that collides on \<^verbatim>\<open>db\<close>.\<close>

definition author_base :: cookiecutter_ctx where
  "author_base = [(''db'', PyInt 3), (''author'', PyStr ''me'')]"

definition db_cache :: "TemplateOption list" where
  "db_cache = [\<lparr>name = ''db'', choices = [''postgres'', ''mysql''], default = ''postgres''\<rparr>,
               \<lparr>name = ''cache'', choices = [''redis'', ''memcached''], default = ''redis''\<rparr>]"

text \<open>Selection maps over the options of the test suite.\<close>

definition both_selected :: selections where
  "both_selected = [(''db'', [''postgres'', ''mysql'']), (''cache'', [''redis'', ''memcached''])]"

text \<open>A selection map with an entry for a name that no option declares.\<close>

definition stale_selected :: selections where
  "stale_selected = [(''db'', [''postgres'', ''mysql'']), (''removed'', [''x'', ''y'', ''z'']), (''cache'', [])]"

text \<open>An option list that declares the name \<^verbatim>\<open>db\<close> twice.\<close>

definition dup_db :: "TemplateOption list" where
  "dup_db = [\<lparr>name = ''db'', choices = [''postgres'', ''mysql''], default = ''postgres''\<rparr>,
             \<lparr>name = ''db'', choices = [''postgres'', ''mysql''], default = ''postgres''\<rparr>]"

definition db_selected :: selections where
  "db_selected = [(''db'', [''postgres'', ''mysql''])]"

text \<open>Two well-formed options that share the name \<^verbatim>\<open>x\<close> and differ in their choices.\<close>

definition clash_x :: "TemplateOption list" where
  "clash_x = [\<lparr>name = ''x'', choices = [''a''], default = ''a''\<rparr>,
              \<lparr>name = ''x'', choices = [''b''], default = ''b''\<rparr>]"

text \<open>
  An unknown name after an entry with an invalid value, and after an entry that is valid.
\<close>

definition invalid_then_unknown :: selections where
  "invalid_then_unknown = [(''db'', [''sqlite'']), (''invalid_option'', [''x''])]"

definition valid_then_unknown :: selections where
  "valid_then_unknown = [(''db'', [''mysql'']), (''invalid_option'', [''x''])]"

text \<open>Example plugins and an example project.\<close>

definition demo_project :: ProjectInfo where
  "demo_project =
     \<lparr>path = ''/tmp/out/project'',
      cookiecutter_context = [(''db'', PyStr ''postgres'')],
      template_metadata = \<lparr>source = ''gh:user/template'', template_name = None, version = None\<rparr>\<rparr>"

definition plain_result :: "string \<Rightarrow> TasterStatus \<Rightarrow> TasterResult" where
  "plain_result n s =
     \<lparr>taster_name = n, status = s, message = '''', logs = [], duration_seconds = 0\<rparr>"

definition lint_taster :: Taster where
  "lint_taster =
     \<lparr>get_taster_name = ''lint'', can_handle = (\<lambda>ctx. True),
      test_project = (\<lambda>info. Inr (plain_result ''lint'' SUCCESS))\<rparr>"

definition idle_lint_taster :: Taster where
  "idle_lint_taster =
     \<lparr>get_taster_name = ''lint'', can_handle = (\<lambda>ctx. False),
      test_project = (\<lambda>info. Inr (plain_result ''lint'' FAILURE))\<rparr>"

definition broken_taster :: Taster where
  "broken_taster =
     \<lparr>get_taster_name = ''broken'', can_handle = (\<lambda>ctx. True),
      test_project = (\<lambda>info. Inl (Raised ''boom''))\<rparr>"

definition style_taster :: Taster where
  "style_taster =
     \<lparr>get_taster_name = ''style'', can_handle = (\<lambda>ctx. False),
      test_project = (\<lambda>info. Inr (plain_result ''style'' SKIPPED))\<rparr>"

text \<open>The result that each of the example plugins returns on the example project.\<close>

definition demo_verdict :: "Taster \<Rightarrow> TasterResult" where
  "demo_verdict p =
     plain_result (get_taster_name p)
       (if can_handle p (taster_context demo_project) then SUCCESS
        else if get_taster_name p = ''lint'' then FAILURE else SKIPPED)"




section \<open>Dictionaries and the cartesian product\<close>

lemma map_of_dict_set: "map_of (dict_set k v d) = (map_of d)(k \<mapsto> v)"
  by (induction d) (auto simp: fun_eq_iff)

lemma keys_dict_set:
  "map fst (dict_set k v d) = (if k \<in> set (map fst d) then map fst d else map fst d @ [k])"
  by (induction d) force+

lemma is_dict_dict_set: "is_dict d \<Longrightarrow> is_dict (dict_set k v d)"
  by (simp add: is_dict_def keys_dict_set)

lemma app_snoc: "(@) (a @ [x]) = (\<lambda>t. a @ x # t)"
  by (simp add: fun_eq_iff)

lemma app_nil: "(@) [] = (\<lambda>t. t)"
  by (simp add: fun_eq_iff)

lemma fold_product_step:
  "fold product_step pools acc = concat (map (\<lambda>a. map (\<lambda>t. a @ t) (spec_cartesian pools)) acc)"
proof (induction pools arbitrary: acc)
  case Nil
  show ?case by (induction acc) auto
next
  case (Cons p pools)
  have "fold product_step (p # pools) acc = fold product_step pools (product_step p acc)" by simp
  also have "\<dots> = concat (map (\<lambda>a. map (\<lambda>t. a @ t) (spec_cartesian pools)) (product_step p acc))"
    by (rule Cons.IH)
  also have "\<dots> = concat (map (\<lambda>a. map (\<lambda>t. a @ t) (spec_cartesian (p # pools))) acc)"
    unfolding product_step_def
    by (induction acc) (auto simp: map_concat comp_def app_snoc)
  finally show ?case .
qed

lemma itertools_product_eq: "itertools_product pools = spec_cartesian pools"
  by (simp add: itertools_product_def fold_product_step app_nil)

section \<open>The option map\<close>

lemma fold_dict_set:
  "map_of (fold (\<lambda>x c. dict_set (kf x) (vf x) c) xs c) = (map_of c)(map kf xs [\<mapsto>] map vf xs)"
  by (induction xs arbitrary: c) (simp_all add: map_of_dict_set)

lemma fold_cond: "fold (\<lambda>x c. if P x then g x c else c) xs c = fold g (filter P xs) c"
  by (induction xs arbitrary: c) simp_all

lemma find_app:
  "find P (xs @ ys) = (case find P xs of None \<Rightarrow> find P ys | Some x \<Rightarrow> Some x)"
  by (induction xs) simp_all

lemma map_upds_find:
  "(m(map kf xs [\<mapsto>] map vf xs)) k =
     (case find (\<lambda>x. kf x = k) (rev xs) of None \<Rightarrow> m k | Some x \<Rightarrow> Some (vf x))"
proof (induction xs arbitrary: m)
  case Nil show ?case by simp
next
  case (Cons x xs)
  show ?case by (simp add: Cons.IH find_app split: option.splits)
qed

lemma map_of_make_option_map: "map_of (make_option_map options) n = named_option options n"
proof -
  have "map_of (make_option_map options) n = (Map.empty(map name options [\<mapsto>] map (\<lambda>opt. opt) options)) n"
    unfolding make_option_map_def by (simp add: fold_dict_set)
  also have "\<dots> = named_option options n"
    unfolding map_upds_find named_option_def by (simp split: option.splits)
  finally show ?thesis .
qed

section \<open>Validation, and expansion without a varying option\<close>

lemma validate_selections_Cons_None:
  "validate_selections (make_option_map options) ((n, vs) # rest) = None \<longleftrightarrow>
     (case named_option options n of
        None \<Rightarrow> False
      | Some opt \<Rightarrow> list_all (\<lambda>v. v \<in> set (choices opt)) vs)
     \<and> validate_selections (make_option_map options) rest = None"
proof (cases "named_option options n")
  case None
  then show ?thesis by (simp add: map_of_make_option_map)
next
  case (Some opt)
  have "filter (\<lambda>v. v \<notin> set (choices opt)) vs = [] \<longleftrightarrow> list_all (\<lambda>v. v \<in> set (choices opt)) vs"
    by (simp add: filter_empty_conv list_all_iff)
  with Some show ?thesis by (simp add: map_of_make_option_map Let_def)
qed

lemma validate_selections_None_iff:
  "validate_selections (make_option_map options) sel = None \<longleftrightarrow> selections_valid options sel"
proof (induction sel)
  case Nil
  show ?case by (simp add: selections_valid_def)
next
  case (Cons p sel)
  obtain n vs where p: "p = (n, vs)" by (cases p)
  have "selections_valid options (p # sel) \<longleftrightarrow>
          (case named_option options n of
             None \<Rightarrow> False
           | Some opt \<Rightarrow> list_all (\<lambda>v. v \<in> set (choices opt)) vs)
          \<and> selections_valid options sel"
    by (simp add: selections_valid_def p)
  with Cons.IH show ?case
    unfolding p validate_selections_Cons_None by simp
qed

lemma varying_eq:
  "varying options sel =
     map (\<lambda>opt. (name opt, selected sel (name opt))) (filter (varies sel) options)"
  by (induction options) (auto simp: varies_def selected_def split: option.splits)

lemma varying_Nil_iff: "varying options sel = [] \<longleftrightarrow> list_all (\<lambda>opt. \<not> varies sel opt) options"
  by (simp add: varying_eq filter_empty_conv list_all_iff)

lemma validate_selections_Nil: "validate_selections om [] = None"
  by simp

lemma varies_Nil: "\<not> varies [] opt"
  by (simp add: varies_def)

lemma map_of_set_all_defaults:
  "map_of (set_all_defaults options base) = spec_default_context base options"
  unfolding set_all_defaults_def spec_default_context_def by (rule fold_dict_set)

text \<open>
  C7. With an empty selection map, and with a valid one in which no option has a non-empty
  value list, \<^verbatim>\<open>generate_combinations\<close> returns exactly one context: the base context
  with every option's name set to its default, the defaults overriding the base context.
\<close>

theorem no_varying_option_single_context:
  assumes "sel = [] \<or> (selections_valid options sel \<and> list_all (\<lambda>opt. \<not> varies sel opt) options)"
  shows "\<exists>c. generate_combinations options sel base_context = Inr [c]
           \<and> map_of c = spec_default_context (case base_context of None \<Rightarrow> [] | Some b \<Rightarrow> b) options"
proof -
  have v: "validate_selections (make_option_map options) sel = None"
    using assms by (auto simp: validate_selections_None_iff selections_valid_def)
  have n: "varying options sel = []"
    using assms by (auto simp: varying_Nil_iff varies_Nil list_all_iff)
  show ?thesis
    unfolding generate_combinations_def by (simp add: v n map_of_set_all_defaults)
qed

theorem no_varying_option_single_context_witness:
  "([(''db'', [])] = [] \<or> (selections_valid db_cache [(''db'', [])]
       \<and> list_all (\<lambda>opt. \<not> varies [(''db'', [])] opt) db_cache))
   \<and> (\<exists>c. generate_combinations db_cache [(''db'', [])] (Some author_base) = Inr [c]
         \<and> map_of c = spec_default_context author_base db_cache)"
proof -
  have h: "[(''db'', [])] = [] \<or> (selections_valid db_cache [(''db'', [])]
       \<and> list_all (\<lambda>opt. \<not> varies [(''db'', [])] opt) db_cache)"
    by (simp add: selections_valid_def named_option_def db_cache_def varies_def)
  show ?thesis
    using h no_varying_option_single_context [OF h, of "Some author_base"] by simp
qed

section \<open>The enumeration of the cartesian product\<close>

lemma length_spec_cartesian: "length (spec_cartesian vss) = prod_list (map length vss)"
proof (induction vss)
  case Nil show ?case by simp
next
  case (Cons xs vss)
  have "length (concat (map (\<lambda>x. map (\<lambda>t. x # t) ts) xs)) = length xs * length ts" for ts :: "'a list list"
    by (induction xs) simp_all
  with Cons show ?case by simp
qed

lemma set_spec_cartesian:
  "set (spec_cartesian vss) = {t. list_all2 (\<lambda>v vs. v \<in> set vs) t vss}"
proof (induction vss)
  case Nil show ?case by auto
next
  case (Cons xs vss)
  show ?case
  proof (rule set_eqI)
    fix t
    show "t \<in> set (spec_cartesian (xs # vss)) \<longleftrightarrow> t \<in> {t. list_all2 (\<lambda>v vs. v \<in> set vs) t (xs # vss)}"
      using Cons.IH by (cases t) (auto simp: list_all2_Cons2)
  qed
qed

lemma length_tuple: "t \<in> set (spec_cartesian vss) \<Longrightarrow> length t = length vss"
  by (simp add: set_spec_cartesian list_all2_lengthD)

lemma nth_blocks:
  "i < length xs * length ts \<Longrightarrow>
     concat (map (\<lambda>x. map (\<lambda>t. x # t) ts) xs) ! i = xs ! (i div length ts) # ts ! (i mod length ts)"
proof (induction xs arbitrary: i)
  case Nil then show ?case by simp
next
  case (Cons x xs)
  let ?n = "length ts"
  show ?case
  proof (cases "i < ?n")
    case True
    then show ?thesis by (simp add: nth_append)
  next
    case False
    then have ge: "?n \<le> i" by simp
    from Cons.prems have pos: "0 < ?n" by (cases "?n = 0") auto
    from Cons.prems ge have lt: "i - ?n < length xs * ?n" by simp
    have d: "i div ?n = Suc ((i - ?n) div ?n)"
      using ge pos by (simp add: le_div_geq)
    have m: "i mod ?n = (i - ?n) mod ?n"
      using ge by (simp add: le_mod_geq)
    show ?thesis
      using False Cons.IH [OF lt] by (simp add: nth_append d m)
  qed
qed

lemma mod_div_mod:
  fixes i :: nat
  shows "(i mod (A * (L * Q))) div Q mod L = i div Q mod L"
proof (cases "Q = 0")
  case True then show ?thesis by simp
next
  case False
  have "i mod (Q * (L * A)) = Q * (i div Q mod (L * A)) + i mod Q"
    by (rule mod_mult2_eq)
  then have "(i mod (Q * (L * A))) div Q = i div Q mod (L * A)"
    using False by simp
  moreover have "A * (L * Q) = Q * (L * A)" by (simp add: ac_simps)
  ultimately have "(i mod (A * (L * Q))) div Q = i div Q mod (L * A)" by (simp only:)
  then show ?thesis by (simp add: mod_mod_cancel)
qed

lemma prod_list_split:
  "k < length vss \<Longrightarrow>
     prod_list (map length vss) =
       prod_list (map length (take k vss)) * (length (vss ! k) * prod_list (map length (drop (Suc k) vss)))"
proof -
  assume k: "k < length vss"
  have "map length vss = map length (take k vss @ vss ! k # drop (Suc k) vss)"
    using id_take_nth_drop [OF k] by simp
  then have "prod_list (map length vss) = prod_list (map length (take k vss @ vss ! k # drop (Suc k) vss))"
    by simp
  then show ?thesis by simp
qed

lemma nth_spec_cartesian:
  "i < prod_list (map length vss) \<Longrightarrow> k < length vss \<Longrightarrow>
     spec_cartesian vss ! i ! k =
       vss ! k ! ((i div prod_list (map length (drop (Suc k) vss))) mod length (vss ! k))"
proof (induction vss arbitrary: i k)
  case Nil then show ?case by simp
next
  case (Cons xs vss)
  let ?P = "prod_list (map length vss)"
  have len: "length (spec_cartesian vss) = ?P" by (rule length_spec_cartesian)
  from Cons.prems(1) have i: "i < length xs * ?P" by simp
  then have pos: "0 < ?P" by (cases "?P = 0") auto
  have nth: "spec_cartesian (xs # vss) ! i = xs ! (i div ?P) # spec_cartesian vss ! (i mod ?P)"
    using nth_blocks [of i xs "spec_cartesian vss"] i by (simp add: len)
  show ?case
  proof (cases k)
    case 0
    have "i div ?P < length xs" using i by (simp add: less_mult_imp_div_less)
    then show ?thesis by (simp add: nth 0 del: spec_cartesian.simps)
  next
    case (Suc k')
    with Cons.prems(2) have k': "k' < length vss" by simp
    have im: "i mod ?P < ?P" using pos by simp
    let ?Q = "prod_list (map length (drop (Suc k') vss))"
    let ?L = "length (vss ! k')"
    have "spec_cartesian vss ! (i mod ?P) ! k' = vss ! k' ! (((i mod ?P) div ?Q) mod ?L)"
      by (rule Cons.IH [OF im k'])
    moreover have "((i mod ?P) div ?Q) mod ?L = (i div ?Q) mod ?L"
      unfolding prod_list_split [OF k'] by (rule mod_div_mod)
    ultimately show ?thesis by (simp add: nth Suc del: spec_cartesian.simps)
  qed
qed

section \<open>Expansion with varying options\<close>

lemma zip_strict_eq: "length xs = length ys \<Longrightarrow> zip_strict xs ys = Inr (zip xs ys)"
  by (induction xs ys rule: list_induct2) simp_all

lemma map_of_apply_tuple:
  assumes "length names = length t"
  shows "map_of (apply_tuple (zip names t) base) = (map_of base)(names [\<mapsto>] map PyStr t)"
proof -
  have "apply_tuple (zip names t) base =
          fold (\<lambda>p c. dict_set (fst p) (PyStr (snd p)) c) (zip names t) base"
    by (simp add: apply_tuple_def case_prod_unfold)
  then have "map_of (apply_tuple (zip names t) base) =
          (map_of base)(map fst (zip names t) [\<mapsto>] map (\<lambda>p. PyStr (snd p)) (zip names t))"
    by (simp only: fold_dict_set)
  moreover have "map fst (zip names t) = names"
    using assms by (simp add: map_fst_zip)
  moreover have "map (\<lambda>p. PyStr (snd p)) (zip names t) = map PyStr t"
  proof -
    have "map (\<lambda>p. PyStr (snd p)) (zip names t) = map PyStr (map snd (zip names t))" by simp
    also have "\<dots> = map PyStr t" using assms by (simp only: map_snd_zip)
    finally show ?thesis .
  qed
  ultimately show ?thesis by simp
qed

lemma map_of_set_fixed_defaults:
  "map_of (set_fixed_defaults options sel c) =
     (map_of c)(map name (spec_fixed options sel) [\<mapsto>]
                 map (\<lambda>opt. PyStr (default opt)) (spec_fixed options sel))"
  unfolding set_fixed_defaults_def spec_fixed_def fold_cond by (rule fold_dict_set)

lemma combo_context_eq:
  assumes "length t = length (spec_varying_names options sel)"
  shows "\<exists>c. combo_context options sel base (spec_varying_names options sel) t = Inr c
            \<and> map_of c = spec_context base options sel t"
  using assms
  by (simp add: combo_context_def zip_strict_eq map_of_set_fixed_defaults map_of_apply_tuple
        spec_context_def)

lemma combinations_loop_eq:
  assumes "\<forall>t\<in>set tuples. length t = length (spec_varying_names options sel)"
  shows "\<exists>cs. combinations_loop options sel base (spec_varying_names options sel) tuples = Inr cs
            \<and> map map_of cs = map (spec_context base options sel) tuples"
  using assms
proof (induction tuples)
  case Nil show ?case by simp
next
  case (Cons t tuples)
  from Cons.prems have "length t = length (spec_varying_names options sel)" by simp
  from combo_context_eq [OF this] obtain c where
    c: "combo_context options sel base (spec_varying_names options sel) t = Inr c"
       "map_of c = spec_context base options sel t" by blast
  from Cons obtain cs where
    cs: "combinations_loop options sel base (spec_varying_names options sel) tuples = Inr cs"
        "map map_of cs = map (spec_context base options sel) tuples" by auto
  show ?case by (simp add: c cs)
qed

lemma varying_fst: "map fst (varying options sel) = spec_varying_names options sel"
  by (simp add: varying_eq spec_varying_names_def comp_def)

lemma varying_snd: "map snd (varying options sel) = spec_varying_values options sel"
  by (simp add: varying_eq spec_varying_values_def comp_def)

lemma generate_combinations_varying:
  assumes valid: "selections_valid options sel"
    and some: "\<not> list_all (\<lambda>opt. \<not> varies sel opt) options"
  shows "\<exists>cs. generate_combinations options sel base_context = Inr cs
           \<and> map map_of cs =
               map (spec_context (case base_context of None \<Rightarrow> [] | Some b \<Rightarrow> b) options sel)
                 (spec_cartesian (spec_varying_values options sel))"
proof -
  let ?base = "case base_context of None \<Rightarrow> [] | Some b \<Rightarrow> b"
  have v: "validate_selections (make_option_map options) sel = None"
    using valid by (simp add: validate_selections_None_iff)
  have n: "varying options sel \<noteq> []"
    using some by (simp add: varying_Nil_iff)
  have len: "\<forall>t\<in>set (spec_cartesian (spec_varying_values options sel)).
               length t = length (spec_varying_names options sel)"
    by (simp add: length_tuple spec_varying_values_def spec_varying_names_def)
  have "generate_combinations options sel base_context =
          combinations_loop options sel ?base (spec_varying_names options sel)
            (spec_cartesian (spec_varying_values options sel))"
    unfolding generate_combinations_def
    by (simp add: v n Let_def varying_fst varying_snd itertools_product_eq)
  with combinations_loop_eq [OF len, of ?base] show ?thesis by simp
qed

text \<open>
  C2. When the selections are valid and at least one option varies,
  \<^verbatim>\<open>generate_combinations\<close> returns one context per tuple of the cartesian product of
  the varying options' value lists, taken in the order in which the options are declared.
  Each context is the base context, overridden by the tuple's assignments, overridden by the
  defaults of the fixed options. The tuples come in the order of nested iteration with
  the earlier options as outer loops: component \<open>k\<close> of tuple \<open>i\<close> is the digit of \<open>i\<close>
  at position \<open>k\<close> in the mixed radix of the value lists' lengths, so that the last
  varying option cycles fastest.
\<close>

theorem varying_options_cartesian_product:
  assumes "selections_valid options sel"
    and "list_ex (varies sel) options"
  shows "\<exists>cs. generate_combinations options sel base_context = Inr cs
           \<and> map map_of cs =
               map (spec_context (case base_context of None \<Rightarrow> [] | Some b \<Rightarrow> b) options sel)
                 (spec_cartesian (spec_varying_values options sel))
           \<and> set (spec_cartesian (spec_varying_values options sel)) =
               {t. list_all2 (\<lambda>v vs. v \<in> set vs) t (spec_varying_values options sel)}
           \<and> length cs = prod_list (map length (spec_varying_values options sel))
           \<and> (\<forall>i<length cs. \<forall>k<length (spec_varying_values options sel).
                 spec_cartesian (spec_varying_values options sel) ! i ! k =
                   spec_varying_values options sel ! k !
                     ((i div prod_list (map length (drop (Suc k) (spec_varying_values options sel))))
                        mod length (spec_varying_values options sel ! k)))"
proof -
  let ?vss = "spec_varying_values options sel"
  have some: "\<not> list_all (\<lambda>opt. \<not> varies sel opt) options"
    using assms(2) by (simp add: list_ex_iff list_all_iff)
  from generate_combinations_varying [OF assms(1) some, of base_context] obtain cs where
    cs: "generate_combinations options sel base_context = Inr cs"
        "map map_of cs =
           map (spec_context (case base_context of None \<Rightarrow> [] | Some b \<Rightarrow> b) options sel)
             (spec_cartesian ?vss)"
    by blast
  have "length (map map_of cs) = length (spec_cartesian ?vss)"
    by (simp only: cs(2) length_map)
  then have len: "length cs = prod_list (map length ?vss)"
    by (simp add: length_spec_cartesian)
  have nth: "\<forall>i<length cs. \<forall>k<length ?vss.
               spec_cartesian ?vss ! i ! k =
                 ?vss ! k ! ((i div prod_list (map length (drop (Suc k) ?vss))) mod length (?vss ! k))"
    using nth_spec_cartesian [of _ ?vss] by (simp add: len)
  show ?thesis
    using cs len nth set_spec_cartesian [of ?vss] by blast
qed

theorem varying_options_cartesian_product_witness:
  "selections_valid db_cache both_selected \<and> list_ex (varies both_selected) db_cache
   \<and> (\<exists>cs. generate_combinations db_cache both_selected (Some author_base) = Inr cs
         \<and> length cs = 4
         \<and> map map_of cs =
             map (spec_context author_base db_cache both_selected)
               [[''postgres'', ''redis''], [''postgres'', ''memcached''],
                [''mysql'', ''redis''], [''mysql'', ''memcached'']])"
proof -
  have h1: "selections_valid db_cache both_selected"
    by (simp add: selections_valid_def named_option_def db_cache_def both_selected_def)
  have h2: "list_ex (varies both_selected) db_cache"
    by (simp add: db_cache_def both_selected_def varies_def)
  have vss: "spec_varying_values db_cache both_selected =
               [[''postgres'', ''mysql''], [''redis'', ''memcached'']]"
    by (simp add: spec_varying_values_def db_cache_def both_selected_def varies_def selected_def)
  from varying_options_cartesian_product [OF h1 h2, of "Some author_base"] obtain cs where
    cs: "generate_combinations db_cache both_selected (Some author_base) = Inr cs"
        "map map_of cs = map (spec_context author_base db_cache both_selected)
           (spec_cartesian (spec_varying_values db_cache both_selected))"
        "length cs = prod_list (map length (spec_varying_values db_cache both_selected))"
    by auto
  have "length cs = 4" using cs(3) by (simp add: vss)
  moreover have "map map_of cs =
      map (spec_context author_base db_cache both_selected)
        [[''postgres'', ''redis''], [''postgres'', ''memcached''],
         [''mysql'', ''redis''], [''mysql'', ''memcached'']]"
    using cs(2) by (simp add: vss)
  ultimately show ?thesis using h1 h2 cs(1) by blast
qed

section \<open>The estimate\<close>

lemma named_option_None_iff: "named_option options n = None \<longleftrightarrow> \<not> known_option options n"
  by (auto simp: named_option_def known_option_def find_None_iff)

lemma dict_contains_option_map:
  "dict_contains n (make_option_map options) \<longleftrightarrow> known_option options n"
  by (simp add: dict_contains_def map_of_make_option_map named_option_None_iff)

lemma fold_times:
  fixes c :: int
  shows "fold (\<lambda>(n, vs) count. if P n vs then count * f vs else count) sel c =
           c * prod_list (map (\<lambda>(n, vs). f vs) (filter (\<lambda>(n, vs). P n vs) sel))"
proof (induction sel arbitrary: c)
  case Nil show ?case by simp
next
  case (Cons p sel)
  obtain n vs where p: "p = (n, vs)" by (cases p)
  show ?case unfolding p by (simp add: Cons.IH)
qed

lemma estimate_eq: "estimate_combination_count options sel = spec_estimate options sel"
proof -
  have "estimate_combination_count options sel =
          prod_list (map (\<lambda>(n, vs). int (length vs))
            (filter (\<lambda>(n, vs). dict_contains n (make_option_map options) \<and> length vs > 0) sel))"
    unfolding estimate_combination_count_def Let_def fold_times by simp
  also have "filter (\<lambda>(n, vs). dict_contains n (make_option_map options) \<and> length vs > 0) sel =
             filter (\<lambda>(n, vs). known_option options n \<and> vs \<noteq> []) sel"
    by (rule filter_cong) (auto simp: dict_contains_option_map)
  finally show ?thesis by (simp add: spec_estimate_def)
qed

lemma unknown_key_rejected:
  assumes "(k, vs) \<in> set sel" and "\<not> known_option options k"
  shows "validate_selections (make_option_map options) sel \<noteq> None"
proof
  assume "validate_selections (make_option_map options) sel = None"
  then have "selections_valid options sel" by (simp add: validate_selections_None_iff)
  with assms(1) have "named_option options k \<noteq> None"
    by (auto simp: selections_valid_def list_all_iff split: option.splits)
  with assms(2) show False by (simp add: named_option_None_iff)
qed

lemma generate_combinations_invalid:
  "validate_selections (make_option_map options) sel = Some e \<Longrightarrow>
     generate_combinations options sel base_context = Inl e"
  by (simp add: generate_combinations_def)

text \<open>
  C9. \<^verbatim>\<open>estimate_combination_count\<close> has no raising path: for every option list and
  every selection map it returns the product of the lengths of the value lists of the
  entries whose key names a known option and whose value list is not empty. An entry with
  an unknown name is skipped, where \<^verbatim>\<open>generate_combinations\<close> raises.
\<close>

theorem estimate_is_product_of_known_nonempty:
  "estimate_combination_count options sel = spec_estimate options sel
   \<and> (list_ex (\<lambda>(n, vs). \<not> known_option options n) sel \<longrightarrow>
        (\<exists>e. generate_combinations options sel base_context = Inl e))"
proof
  show "estimate_combination_count options sel = spec_estimate options sel"
    by (rule estimate_eq)
next
  show "list_ex (\<lambda>(n, vs). \<not> known_option options n) sel \<longrightarrow>
        (\<exists>e. generate_combinations options sel base_context = Inl e)"
  proof
    assume "list_ex (\<lambda>(n, vs). \<not> known_option options n) sel"
    then obtain k vs where "(k, vs) \<in> set sel" "\<not> known_option options k"
      by (auto simp: list_ex_iff)
    then have "validate_selections (make_option_map options) sel \<noteq> None"
      by (rule unknown_key_rejected)
    then show "\<exists>e. generate_combinations options sel base_context = Inl e"
      by (auto simp: generate_combinations_invalid)
  qed
qed

theorem estimate_is_product_of_known_nonempty_witness:
  "list_ex (\<lambda>(n, vs). \<not> known_option db_cache n) stale_selected
   \<and> estimate_combination_count db_cache stale_selected = 2
   \<and> (\<exists>e. generate_combinations db_cache stale_selected None = Inl e)"
proof -
  have h: "list_ex (\<lambda>(n, vs). \<not> known_option db_cache n) stale_selected"
    by (simp add: known_option_def db_cache_def stale_selected_def)
  have s: "spec_estimate db_cache stale_selected = 2"
    by (simp add: spec_estimate_def known_option_def db_cache_def stale_selected_def)
  show ?thesis
    using h s estimate_is_product_of_known_nonempty [of db_cache stale_selected None] by simp
qed

section \<open>Agreement of the estimate and the expansion\<close>

lemma generate_combinations_length:
  assumes "selections_valid options sel"
  shows "\<exists>cs. generate_combinations options sel base_context = Inr cs
           \<and> length cs = prod_list (map length (spec_varying_values options sel))"
proof (cases "list_all (\<lambda>opt. \<not> varies sel opt) options")
  case True
  then have "filter (varies sel) options = []"
    by (simp add: filter_empty_conv list_all_iff)
  then have e: "spec_varying_values options sel = []"
    by (simp add: spec_varying_values_def)
  have v: "validate_selections (make_option_map options) sel = None"
    using assms by (simp add: validate_selections_None_iff)
  have n: "varying options sel = []" using True by (simp add: varying_Nil_iff)
  show ?thesis unfolding generate_combinations_def by (simp add: v n e)
next
  case False
  from generate_combinations_varying [OF assms False, of base_context] obtain cs where
    cs: "generate_combinations options sel base_context = Inr cs"
        "map map_of cs =
           map (spec_context (case base_context of None \<Rightarrow> [] | Some b \<Rightarrow> b) options sel)
             (spec_cartesian (spec_varying_values options sel))"
    by blast
  have "length (map map_of cs) = length (spec_cartesian (spec_varying_values options sel))"
    by (simp only: cs(2) length_map)
  then show ?thesis using cs(1) by (simp add: length_spec_cartesian)
qed

lemma varies_selected: "varies sel opt \<longleftrightarrow> selected sel (name opt) \<noteq> []"
  by (simp add: varies_def selected_def split: option.splits)

lemma prod_varying_weight:
  "prod_list (map length (spec_varying_values options sel)) =
     prod_list (map (weight sel) (map name options))"
  unfolding spec_varying_values_def
  by (induction options) (simp_all add: varies_selected weight_def)

lemma selected_entry: "is_dict sel \<Longrightarrow> (n, vs) \<in> set sel \<Longrightarrow> selected sel n = vs"
  by (simp add: is_dict_def selected_def)

lemma selected_no_entry: "n \<notin> set (map fst sel) \<Longrightarrow> selected sel n = []"
proof -
  assume "n \<notin> set (map fst sel)"
  then have "map_of sel n = None" by (simp add: map_of_eq_None_iff)
  then show ?thesis by (simp add: selected_def)
qed

lemma prod_entries_weight:
  assumes "is_dict sel" and "selections_valid options sel"
  shows "(\<Prod>(n, vs)\<leftarrow>filter (\<lambda>(n, vs). known_option options n \<and> vs \<noteq> []) sel. length vs) =
           prod_list (map (weight sel) (map fst sel))"
proof -
  have known: "known_option options n" if "(n, vs) \<in> set sel" for n vs
  proof -
    from assms(2) that have "named_option options n \<noteq> None"
      by (auto simp: selections_valid_def list_all_iff split: option.splits)
    then show ?thesis by (simp add: named_option_None_iff)
  qed
  have w: "weight sel n = (if vs = [] then 1 else length vs)" if "(n, vs) \<in> set sel" for n vs
    using selected_entry [OF assms(1) that] by (simp add: weight_def)
  have "(\<Prod>(n, vs)\<leftarrow>filter (\<lambda>(n, vs). known_option options n \<and> vs \<noteq> []) ps. length vs) =
           prod_list (map (weight sel) (map fst ps))" if "set ps \<subseteq> set sel" for ps
    using that
  proof (induction ps)
    case Nil show ?case by simp
  next
    case (Cons p ps)
    obtain n vs where p: "p = (n, vs)" by (cases p)
    from Cons.prems p have mem: "(n, vs) \<in> set sel" by simp
    from Cons have IH: "(\<Prod>(n, vs)\<leftarrow>filter (\<lambda>(n, vs). known_option options n \<and> vs \<noteq> []) ps. length vs) =
           prod_list (map (weight sel) (map fst ps))" by simp
    show ?case unfolding p using IH known [OF mem] w [OF mem] by simp
  qed
  then show ?thesis by simp
qed

lemma keys_known:
  assumes "selections_valid options sel"
  shows "set (map fst sel) \<subseteq> set (map name options)"
proof
  fix n assume "n \<in> set (map fst sel)"
  then obtain vs where "(n, vs) \<in> set sel" by auto
  with assms have "named_option options n \<noteq> None"
    by (auto simp: selections_valid_def list_all_iff split: option.splits)
  then show "n \<in> set (map name options)"
    by (simp add: named_option_None_iff known_option_def)
qed

lemma prod_list_distinct:
  fixes g :: "'a \<Rightarrow> nat"
  shows "distinct xs \<Longrightarrow> prod_list (map g xs) = prod g (set xs)"
  by (simp add: prod.distinct_set_conv_list)

lemma product_agreement:
  assumes "distinct (map name options)" and "is_dict sel" and "selections_valid options sel"
  shows "int (prod_list (map length (spec_varying_values options sel))) = spec_estimate options sel"
proof -
  have "prod_list (map (weight sel) (map name options)) = prod (weight sel) (set (map name options))"
    using assms(1) by (rule prod_list_distinct)
  moreover have "prod_list (map (weight sel) (map fst sel)) = prod (weight sel) (set (map fst sel))"
    using assms(2) unfolding is_dict_def by (rule prod_list_distinct)
  moreover have "prod (weight sel) (set (map fst sel)) = prod (weight sel) (set (map name options))"
  proof (rule prod.mono_neutral_left)
    show "finite (set (map name options))" by simp
    show "set (map fst sel) \<subseteq> set (map name options)" using assms(3) by (rule keys_known)
    show "\<forall>i\<in>set (map name options) - set (map fst sel). weight sel i = 1"
      by (simp add: weight_def selected_no_entry)
  qed
  ultimately have "prod_list (map length (spec_varying_values options sel)) =
      (\<Prod>(n, vs)\<leftarrow>filter (\<lambda>(n, vs). known_option options n \<and> vs \<noteq> []) sel. length vs)"
    by (simp add: prod_varying_weight prod_entries_weight [OF assms(2,3)])
  then have "int (prod_list (map length (spec_varying_values options sel))) =
      int (\<Prod>(n, vs)\<leftarrow>filter (\<lambda>(n, vs). known_option options n \<and> vs \<noteq> []) sel. length vs)"
    by simp
  also have "\<dots> = spec_estimate options sel"
    unfolding spec_estimate_def
    by (induction sel) (auto simp: case_prod_unfold)
  finally show ?thesis .
qed

text \<open>
  C5, as stated, fails when two options share a name: the name is varied once per
  declaration by \<^verbatim>\<open>generate_combinations\<close> and counted once per selection entry by
  \<^verbatim>\<open>estimate_combination_count\<close>. Here four contexts against an estimate of two.
\<close>

theorem count_agreement_counterexample:
  "selections_valid dup_db db_selected
   \<and> generate_combinations dup_db db_selected None =
       Inr [[(''db'', PyStr ''postgres'')], [(''db'', PyStr ''mysql'')],
            [(''db'', PyStr ''postgres'')], [(''db'', PyStr ''mysql'')]]
   \<and> estimate_combination_count dup_db db_selected = 2"
  by (simp add: selections_valid_def named_option_def dup_db_def db_selected_def
        generate_combinations_def make_option_map_def itertools_product_def product_step_def
        combo_context_def apply_tuple_def set_fixed_defaults_def varies_def
        estimate_combination_count_def dict_contains_def)

text \<open>
  C5, amended. For options with pairwise distinct names and a selection map (a dictionary:
  each key held once) that passes validation, the number of contexts that
  \<^verbatim>\<open>generate_combinations\<close> returns is the number that
  \<^verbatim>\<open>estimate_combination_count\<close> returns.
\<close>

theorem count_agreement_distinct_names:
  assumes "distinct (map name options)" and "is_dict sel" and "selections_valid options sel"
  shows "\<exists>cs. generate_combinations options sel base_context = Inr cs
           \<and> int (length cs) = estimate_combination_count options sel"
proof -
  from generate_combinations_length [OF assms(3), of base_context] obtain cs where
    cs: "generate_combinations options sel base_context = Inr cs"
        "length cs = prod_list (map length (spec_varying_values options sel))"
    by blast
  have "int (length cs) = estimate_combination_count options sel"
    unfolding cs(2) estimate_eq by (rule product_agreement [OF assms])
  with cs(1) show ?thesis by simp
qed

theorem count_agreement_distinct_names_witness:
  "distinct (map name db_cache) \<and> is_dict both_selected \<and> selections_valid db_cache both_selected
   \<and> (\<exists>cs. generate_combinations db_cache both_selected None = Inr cs
         \<and> int (length cs) = estimate_combination_count db_cache both_selected)
   \<and> estimate_combination_count db_cache both_selected = 4"
proof -
  have h1: "distinct (map name db_cache)" by (simp add: db_cache_def)
  have h2: "is_dict both_selected" by (simp add: is_dict_def both_selected_def)
  have h3: "selections_valid db_cache both_selected"
    by (simp add: selections_valid_def named_option_def db_cache_def both_selected_def)
  have e: "estimate_combination_count db_cache both_selected = 4"
    by (simp add: estimate_combination_count_def dict_contains_def make_option_map_def
          db_cache_def both_selected_def)
  show ?thesis
    using h1 h2 h3 e count_agreement_distinct_names [OF h1 h2 h3, of None] by simp
qed

section \<open>Values are choices\<close>

text \<open>The options that \<^verbatim>\<open>TemplateOption(...)\<close> constructs are the well-formed ones.\<close>

lemma TemplateOption_init_Inr_iff:
  "TemplateOption_init n cs d = Inr opt \<longleftrightarrow>
     opt = \<lparr>name = n, choices = cs, default = d\<rparr> \<and> option_ok opt"
  by (auto simp: TemplateOption_init_def option_ok_def)

lemma distinct_name_eq:
  assumes "distinct (map name options)" and "a \<in> set options" and "b \<in> set options"
    and "name a = name b"
  shows "a = b"
proof -
  from assms(1) have "inj_on name (set options)" by (simp add: distinct_map)
  with assms(2-4) show ?thesis by (simp add: inj_on_def)
qed

lemma find_name_distinct:
  assumes "distinct (map name options)" and "opt \<in> set options" and "set xs \<subseteq> set options"
    and "opt \<in> set xs"
  shows "find (\<lambda>x. name x = name opt) xs = Some opt"
proof (cases "find (\<lambda>x. name x = name opt) xs")
  case None
  with assms(4) show ?thesis by (auto simp: find_None_iff)
next
  case (Some y)
  then have "name y = name opt" "y \<in> set xs" by (auto simp: find_Some_iff)
  with assms(1-3) have "y = opt" by (auto intro: distinct_name_eq)
  with Some show ?thesis by simp
qed

lemma named_option_distinct:
  assumes "distinct (map name options)" and "opt \<in> set options"
  shows "named_option options (name opt) = Some opt"
  unfolding named_option_def using assms by (intro find_name_distinct [where options = options]) auto

lemma map_upds_pointwise:
  assumes "list_all2 Q ks vs" and "k \<in> set ks"
  shows "\<exists>v. (m(ks [\<mapsto>] vs)) k = Some v \<and> Q k v"
  using assms
proof (induction ks vs arbitrary: m rule: list_all2_induct)
  case Nil then show ?case by simp
next
  case (Cons a as b bs)
  show ?case
  proof (cases "k \<in> set as")
    case True
    from Cons.IH [OF True, of "m(a \<mapsto> b)"] show ?thesis by (simp only: map_upds_Cons)
  next
    case False
    with Cons.prems have "k = a" by simp
    with False Cons.hyps(1) show ?thesis by simp
  qed
qed

lemma selected_in_choices:
  assumes "distinct (map name options)" and "selections_valid options sel"
    and "opt \<in> set options" and "s \<in> set (selected sel (name opt))"
  shows "s \<in> set (choices opt)"
proof -
  obtain vs where vs: "map_of sel (name opt) = Some vs" "s \<in> set vs"
  proof (cases "map_of sel (name opt)")
    case None
    with assms(4) show ?thesis by (simp add: selected_def)
  next
    case (Some vs)
    with assms(4) that show ?thesis by (simp add: selected_def)
  qed
  then have "(name opt, vs) \<in> set sel" by (simp add: map_of_SomeD)
  with assms(2) have "case named_option options (name opt) of None \<Rightarrow> False
      | Some o' \<Rightarrow> list_all (\<lambda>v. v \<in> set (choices o')) vs"
    by (auto simp: selections_valid_def list_all_iff)
  then have "list_all (\<lambda>v. v \<in> set (choices opt)) vs"
    by (simp add: named_option_distinct [OF assms(1,3)])
  with vs(2) show ?thesis by (simp add: list_all_iff)
qed

lemma default_context_in_choices:
  assumes "distinct (map name options)" and "list_all option_ok options" and "opt \<in> set options"
  shows "\<exists>v. spec_default_context base options (name opt) = Some (PyStr v) \<and> v \<in> set (choices opt)"
proof -
  have "find (\<lambda>x. name x = name opt) (rev options) = Some opt"
    using assms(1,3) by (intro find_name_distinct [where options = options]) auto
  then have "spec_default_context base options (name opt) = Some (PyStr (default opt))"
    unfolding spec_default_context_def map_upds_find by simp
  moreover have "default opt \<in> set (choices opt)"
    using assms(2,3) by (auto simp: list_all_iff option_ok_def)
  ultimately show ?thesis by simp
qed

lemma spec_context_in_choices:
  assumes d: "distinct (map name options)" and ok: "list_all option_ok options"
    and valid: "selections_valid options sel" and opt: "opt \<in> set options"
    and t: "list_all2 (\<lambda>v vs. v \<in> set vs) t (spec_varying_values options sel)"
  shows "\<exists>v. spec_context base options sel t (name opt) = Some (PyStr v) \<and> v \<in> set (choices opt)"
proof (cases "varies sel opt")
  case False
  then have mem: "opt \<in> set (spec_fixed options sel)" using opt by (simp add: spec_fixed_def)
  have "find (\<lambda>x. name x = name opt) (rev (spec_fixed options sel)) = Some opt"
    using d opt mem by (intro find_name_distinct [where options = options]) (auto simp: spec_fixed_def)
  then have "spec_context base options sel t (name opt) = Some (PyStr (default opt))"
    unfolding spec_context_def map_upds_find by simp
  moreover have "default opt \<in> set (choices opt)"
    using ok opt by (auto simp: list_all_iff option_ok_def)
  ultimately show ?thesis by simp
next
  case True
  have nf: "name opt \<notin> set (map name (spec_fixed options sel))"
  proof
    assume "name opt \<in> set (map name (spec_fixed options sel))"
    then obtain o' where "o' \<in> set options" "\<not> varies sel o'" "name o' = name opt"
      by (auto simp: spec_fixed_def)
    with True show False by (simp add: varies_def)
  qed
  let ?Q = "\<lambda>n v. \<exists>s. v = PyStr s \<and> s \<in> set (selected sel n)"
  have q: "list_all2 ?Q (spec_varying_names options sel) (map PyStr t)"
    using t unfolding spec_varying_names_def spec_varying_values_def
    by (auto simp: list_all2_map1 list_all2_map2 list_all2_conv_all_nth)
  have mem: "name opt \<in> set (spec_varying_names options sel)"
    using True opt by (simp add: spec_varying_names_def)
  from map_upds_pointwise [OF q mem, of "map_of base"] obtain v s where
    v: "((map_of base)(spec_varying_names options sel [\<mapsto>] map PyStr t)) (name opt) = Some v"
    and s: "v = PyStr s" "s \<in> set (selected sel (name opt))"
    by blast
  have "spec_context base options sel t (name opt) = Some (PyStr s)"
    unfolding spec_context_def using nf v(1) s(1) by simp
  moreover have "s \<in> set (choices opt)"
    using d valid opt s(2) by (rule selected_in_choices)
  ultimately show ?thesis by blast
qed

text \<open>
  C8, as stated, fails when two options share a name: the later declaration's default
  overwrites the earlier one's, and need not be a choice of the earlier option.
\<close>

theorem values_in_choices_counterexample:
  "TemplateOption_init ''x'' [''a''] ''a'' = Inr (clash_x ! 0)
   \<and> TemplateOption_init ''x'' [''b''] ''b'' = Inr (clash_x ! 1)
   \<and> selections_valid clash_x []
   \<and> generate_combinations clash_x [] None = Inr [[(''x'', PyStr ''b'')]]
   \<and> name (clash_x ! 0) = ''x''
   \<and> ''b'' \<notin> set (choices (clash_x ! 0))"
  by (simp add: TemplateOption_init_def clash_x_def selections_valid_def
        generate_combinations_def set_all_defaults_def)

text \<open>
  C8, amended. For well-formed options with pairwise distinct names and a selection map
  that passes validation, every context that \<^verbatim>\<open>generate_combinations\<close> returns maps each
  option's name to one of that option's choices.
\<close>

theorem values_in_choices_distinct_names:
  assumes "distinct (map name options)" and "list_all option_ok options"
    and "selections_valid options sel"
  shows "\<exists>cs. generate_combinations options sel base_context = Inr cs
           \<and> (\<forall>c\<in>set cs. \<forall>opt\<in>set options.
                 \<exists>v. map_of c (name opt) = Some (PyStr v) \<and> v \<in> set (choices opt))"
proof (cases "list_all (\<lambda>opt. \<not> varies sel opt) options")
  case True
  let ?base = "case base_context of None \<Rightarrow> [] | Some b \<Rightarrow> b"
  have v: "validate_selections (make_option_map options) sel = None"
    using assms(3) by (simp add: validate_selections_None_iff)
  have n: "varying options sel = []" using True by (simp add: varying_Nil_iff)
  have g: "generate_combinations options sel base_context = Inr [set_all_defaults options ?base]"
    unfolding generate_combinations_def by (simp add: v n)
  have "\<exists>v. map_of (set_all_defaults options ?base) (name opt) = Some (PyStr v) \<and> v \<in> set (choices opt)"
    if "opt \<in> set options" for opt
    unfolding map_of_set_all_defaults
    using assms(1,2) that by (rule default_context_in_choices)
  with g show ?thesis by simp
next
  case False
  let ?base = "case base_context of None \<Rightarrow> [] | Some b \<Rightarrow> b"
  let ?vss = "spec_varying_values options sel"
  from generate_combinations_varying [OF assms(3) False, of base_context] obtain cs where
    cs: "generate_combinations options sel base_context = Inr cs"
        "map map_of cs = map (spec_context ?base options sel) (spec_cartesian ?vss)"
    by blast
  have "\<exists>v. map_of c (name opt) = Some (PyStr v) \<and> v \<in> set (choices opt)"
    if c: "c \<in> set cs" and opt: "opt \<in> set options" for c opt
  proof -
    from c have "map_of c \<in> set (map map_of cs)" by simp
    then have "map_of c \<in> set (map (spec_context ?base options sel) (spec_cartesian ?vss))"
      by (simp only: cs(2))
    then obtain t where t: "t \<in> set (spec_cartesian ?vss)" "map_of c = spec_context ?base options sel t"
      by auto
    from t(1) have "list_all2 (\<lambda>v vs. v \<in> set vs) t ?vss"
      by (simp add: set_spec_cartesian)
    from spec_context_in_choices [OF assms opt this, of ?base] show ?thesis
      by (simp only: t(2))
  qed
  with cs(1) show ?thesis by blast
qed

theorem values_in_choices_distinct_names_witness:
  "distinct (map name db_cache) \<and> list_all option_ok db_cache
   \<and> selections_valid db_cache db_selected
   \<and> (\<exists>cs. generate_combinations db_cache db_selected None = Inr cs
         \<and> (\<forall>c\<in>set cs. \<forall>opt\<in>set db_cache.
               \<exists>v. map_of c (name opt) = Some (PyStr v) \<and> v \<in> set (choices opt)))
   \<and> generate_combinations db_cache db_selected None =
       Inr [[(''db'', PyStr ''postgres''), (''cache'', PyStr ''redis'')],
            [(''db'', PyStr ''mysql''), (''cache'', PyStr ''redis'')]]"
proof -
  have h1: "distinct (map name db_cache)" by (simp add: db_cache_def)
  have h2: "list_all option_ok db_cache" by (simp add: db_cache_def option_ok_def)
  have h3: "selections_valid db_cache db_selected"
    by (simp add: selections_valid_def named_option_def db_cache_def db_selected_def)
  have g: "generate_combinations db_cache db_selected None =
       Inr [[(''db'', PyStr ''postgres''), (''cache'', PyStr ''redis'')],
            [(''db'', PyStr ''mysql''), (''cache'', PyStr ''redis'')]]"
    by (simp add: db_cache_def db_selected_def
        generate_combinations_def make_option_map_def itertools_product_def product_step_def
        combo_context_def apply_tuple_def set_fixed_defaults_def varies_def)
  from values_in_choices_distinct_names [OF h1 h2 h3, of None] h1 h2 h3 g show ?thesis
    by (intro conjI)
qed

lemma validate_selections_append:
  "validate_selections om (pre @ rest) =
     (case validate_selections om pre of Some e \<Rightarrow> Some e | None \<Rightarrow> validate_selections om rest)"
proof (induction pre)
  case Nil show ?case by simp
next
  case (Cons p pre)
  obtain n vs where p: "p = (n, vs)" by (cases p)
  show ?case unfolding p by (simp add: Cons.IH Let_def split: option.splits)
qed

text \<open>
  C6, as stated, fails when an entry that comes before the unknown name in the selection
  map has a value outside its option's choices: the loop raises at that entry, with the
  invalid-values message.
\<close>

theorem unknown_option_counterexample:
  "(''invalid_option'', [''x'']) \<in> set invalid_then_unknown
   \<and> \<not> known_option db_cache ''invalid_option''
   \<and> generate_combinations db_cache invalid_then_unknown None =
       Inl (ValueError (Invalid_values ''db'' [''sqlite''] [''postgres'', ''mysql'']))
   \<and> generate_combinations db_cache invalid_then_unknown None \<noteq>
       Inl (ValueError (Unknown_option ''invalid_option''))"
  by (simp add: generate_combinations_def db_cache_def invalid_then_unknown_def make_option_map_def
        known_option_def)

text \<open>
  C6, amended. A selection map with a key that names no option makes
  \<^verbatim>\<open>generate_combinations\<close> raise, and no context is returned. The error is the
  unknown-option error for that key when every entry before it in the map is valid.
\<close>

theorem unknown_option_rejected:
  assumes "(k, vs) \<in> set sel" and "\<not> known_option options k"
  shows "(\<exists>e. generate_combinations options sel base_context = Inl e)
         \<and> (\<forall>pre post. sel = pre @ (k, vs) # post \<and> selections_valid options pre \<longrightarrow>
               generate_combinations options sel base_context = Inl (ValueError (Unknown_option k)))"
proof
  from assms have "validate_selections (make_option_map options) sel \<noteq> None"
    by (rule unknown_key_rejected)
  then show "\<exists>e. generate_combinations options sel base_context = Inl e"
    by (auto simp: generate_combinations_invalid)
next
  show "\<forall>pre post. sel = pre @ (k, vs) # post \<and> selections_valid options pre \<longrightarrow>
          generate_combinations options sel base_context = Inl (ValueError (Unknown_option k))"
  proof (intro allI impI)
    fix pre post
    assume a: "sel = pre @ (k, vs) # post \<and> selections_valid options pre"
    then have pre: "validate_selections (make_option_map options) pre = None"
      by (simp add: validate_selections_None_iff)
    have "map_of (make_option_map options) k = None"
      using assms(2) by (simp add: map_of_make_option_map named_option_None_iff)
    then have "validate_selections (make_option_map options) ((k, vs) # post) =
                 Some (ValueError (Unknown_option k))"
      by simp
    with pre a have "validate_selections (make_option_map options) sel =
                 Some (ValueError (Unknown_option k))"
      by (simp add: validate_selections_append)
    then show "generate_combinations options sel base_context = Inl (ValueError (Unknown_option k))"
      by (rule generate_combinations_invalid)
  qed
qed

theorem unknown_option_rejected_witness:
  "(''invalid_option'', [''x'']) \<in> set valid_then_unknown
   \<and> \<not> known_option db_cache ''invalid_option''
   \<and> valid_then_unknown = [(''db'', [''mysql''])] @ (''invalid_option'', [''x'']) # []
   \<and> selections_valid db_cache [(''db'', [''mysql''])]
   \<and> generate_combinations db_cache valid_then_unknown None =
       Inl (ValueError (Unknown_option ''invalid_option''))"
proof -
  have h1: "(''invalid_option'', [''x'']) \<in> set valid_then_unknown"
    by (simp add: valid_then_unknown_def)
  have h2: "\<not> known_option db_cache ''invalid_option''"
    by (simp add: known_option_def db_cache_def)
  have h3: "valid_then_unknown = [(''db'', [''mysql''])] @ (''invalid_option'', [''x'']) # []"
    by (simp add: valid_then_unknown_def)
  have h4: "selections_valid db_cache [(''db'', [''mysql''])]"
    by (simp add: selections_valid_def named_option_def db_cache_def)
  from unknown_option_rejected [OF h1 h2, of None] h3 h4
  have "generate_combinations db_cache valid_then_unknown None =
       Inl (ValueError (Unknown_option ''invalid_option''))"
    by blast
  with h1 h2 h3 h4 show ?thesis by (intro conjI)
qed

section \<open>Dispatch\<close>

lemma call_all_Inr:
  "\<forall>x\<in>set xs. f x = Inr (g x) \<Longrightarrow> call_all (map f xs) = Inr (map g xs)"
  by (induction xs) simp_all

lemma call_all_Inl:
  "x \<in> set xs \<Longrightarrow> f x = Inl e \<Longrightarrow> \<exists>e'. call_all (map f xs) = Inl e'"
proof (induction xs)
  case Nil then show ?case by simp
next
  case (Cons y ys)
  show ?case
  proof (cases "f y")
    case (Inl a) then show ?thesis by simp
  next
    case (Inr r)
    with Cons have "x \<in> set ys" by auto
    from Cons.IH [OF this Cons.prems(2)] obtain e' where "call_all (map f ys) = Inl e'" by blast
    with Inr show ?thesis by simp
  qed
qed

lemma call_all_only_raiser:
  assumes "x \<in> set xs" and "f x = Inl e" and "\<forall>y\<in>set xs. y \<noteq> x \<longrightarrow> (\<exists>r. f y = Inr r)"
  shows "call_all (map f xs) = Inl e"
  using assms
proof (induction xs)
  case Nil then show ?case by simp
next
  case (Cons y ys)
  show ?case
  proof (cases "y = x")
    case True with Cons.prems(2) show ?thesis by simp
  next
    case False
    with Cons.prems obtain r where r: "f y = Inr r" by auto
    from False Cons.prems have "x \<in> set ys" by simp
    with Cons have "call_all (map f ys) = Inl e" by simp
    with r show ?thesis by simp
  qed
qed

lemma get_taster_names_nonempty:
  "\<forall>p\<in>set pm. get_taster_name p \<noteq> [] \<Longrightarrow> get_taster_names pm = map get_taster_name (rev pm)"
  by (simp add: get_taster_names_def hook_get_taster_name_def hook_impls_def filter_id_conv)

text \<open>
  A plugin with an empty name is dropped from the names and not from the results of the
  other hooks: \<^verbatim>\<open>zip(..., strict=True)\<close> raises.
\<close>

lemma empty_name_raises:
  "get_taster_name p = [] \<Longrightarrow> run_tasters [p] project_info None = Inl (ValueError Zip_length_mismatch)"
  by (simp add: run_tasters_def get_applicable_tasters_def get_taster_names_def
        hook_get_taster_name_def hook_can_handle_def hook_impls_def)

lemma fst_filter_zip:
  "map fst (filter (\<lambda>(n, b). b) (zip (map f xs) (map g xs))) = map f (filter g xs)"
  by (induction xs) simp_all

lemma snd_filter_zip:
  "map snd (filter (\<lambda>(n, r). n \<in> S) (zip (map f xs) (map v xs))) = map v (filter (\<lambda>p. f p \<in> S) xs)"
  by (induction xs) simp_all

lemma get_applicable_tasters_eq:
  assumes "\<forall>p\<in>set pm. get_taster_name p \<noteq> []"
  shows "get_applicable_tasters pm ctx =
           Inr (map get_taster_name (filter (\<lambda>p. can_handle p ctx) (rev pm)))"
  unfolding get_applicable_tasters_def Let_def get_taster_names_nonempty [OF assms]
    hook_can_handle_def hook_impls_def
  by (simp add: zip_strict_eq fst_filter_zip)

lemma hook_test_project_eq:
  assumes "\<forall>p\<in>set pm. test_project p project_info = Inr (verdict p)"
  shows "hook_test_project pm project_info = Inr (map verdict (rev pm))"
  unfolding hook_test_project_def hook_impls_def
  using assms by (intro call_all_Inr) simp

lemma run_tasters_names:
  assumes "\<forall>p\<in>set pm. get_taster_name p \<noteq> []"
    and "\<forall>p\<in>set pm. test_project p project_info = Inr (verdict p)"
  shows "run_tasters pm project_info (Some names) =
           Inr (map verdict (filter (\<lambda>p. get_taster_name p \<in> set names) (rev pm)))"
  unfolding run_tasters_def Let_def get_taster_names_nonempty [OF assms(1)]
    hook_test_project_eq [OF assms(2)]
  by (simp add: zip_strict_eq snd_filter_zip)



lemma run_tasters_raises:
  assumes "p \<in> set pm" and "test_project p project_info = Inl x"
  shows "\<exists>e. run_tasters pm project_info taster_names = Inl e"
proof -
  from assms have "p \<in> set (rev pm)" by simp
  from call_all_Inl [of p "rev pm" "\<lambda>plugin. test_project plugin project_info" x, OF this assms(2)]
  obtain e where e: "hook_test_project pm project_info = Inl e"
    unfolding hook_test_project_def hook_impls_def by blast
  show ?thesis
    unfolding run_tasters_def Let_def e by (simp split: option.splits sum.splits)
qed

text \<open>
  C1, as stated, fails: \<^verbatim>\<open>run_tasters\<close> calls the hook outside any \<^verbatim>\<open>try\<close>, and the
  exception of one plugin leaves \<^verbatim>\<open>run_tasters\<close> as it is. No verdict is returned, not
  that of the plugin that did not raise either.
\<close>

theorem raising_validator_counterexample:
  "test_project lint_taster demo_project = Inr (plain_result ''lint'' SUCCESS)
   \<and> test_project broken_taster demo_project = Inl (Raised ''boom'')
   \<and> run_tasters (register_plugin (register_plugin [] lint_taster) broken_taster) demo_project None
       = Inl (Raised ''boom'')
   \<and> run_tasters (register_plugin (register_plugin [] broken_taster) lint_taster) demo_project None
       = Inl (Raised ''boom'')"
  by (simp add: run_tasters_def get_applicable_tasters_def get_taster_names_def
        hook_get_taster_name_def hook_can_handle_def hook_test_project_def hook_impls_def
        register_plugin_def lint_taster_def broken_taster_def)

text \<open>
  C1, amended. When the \<^verbatim>\<open>test_project\<close> of a registered plugin raises,
  \<^verbatim>\<open>run_tasters\<close> returns no results at all: it ends with an exception. When that plugin
  is the only one that raises and no plugin has an empty name, the exception is the
  plugin's own.
\<close>

theorem raising_validator_aborts_dispatch:
  assumes "p \<in> set pm" and "test_project p project_info = Inl x"
  shows "(\<exists>e. run_tasters pm project_info taster_names = Inl e)
         \<and> ((\<forall>q\<in>set pm. get_taster_name q \<noteq> []
                 \<and> (q \<noteq> p \<longrightarrow> (\<exists>r. test_project q project_info = Inr r)))
              \<longrightarrow> run_tasters pm project_info taster_names = Inl x)"
proof
  show "\<exists>e. run_tasters pm project_info taster_names = Inl e"
    using assms by (rule run_tasters_raises)
next
  show "(\<forall>q\<in>set pm. get_taster_name q \<noteq> []
           \<and> (q \<noteq> p \<longrightarrow> (\<exists>r. test_project q project_info = Inr r)))
        \<longrightarrow> run_tasters pm project_info taster_names = Inl x"
  proof
    assume a: "\<forall>q\<in>set pm. get_taster_name q \<noteq> []
                 \<and> (q \<noteq> p \<longrightarrow> (\<exists>r. test_project q project_info = Inr r))"
    then have names: "\<forall>q\<in>set pm. get_taster_name q \<noteq> []" by simp
    have "call_all (map (\<lambda>plugin. test_project plugin project_info) (rev pm)) = Inl x"
      using assms a by (intro call_all_only_raiser [where x = p]) auto
    then have h: "hook_test_project pm project_info = Inl x"
      by (simp add: hook_test_project_def hook_impls_def)
    show "run_tasters pm project_info taster_names = Inl x"
      unfolding run_tasters_def Let_def h
      by (simp add: get_applicable_tasters_eq [OF names] split: option.splits)
  qed
qed

theorem raising_validator_aborts_dispatch_witness:
  "broken_taster \<in> set [lint_taster, broken_taster]
   \<and> test_project broken_taster demo_project = Inl (Raised ''boom'')
   \<and> list_all (\<lambda>q. get_taster_name q \<noteq> []) [lint_taster, broken_taster]
   \<and> (\<exists>r. test_project lint_taster demo_project = Inr r)
   \<and> run_tasters [lint_taster, broken_taster] demo_project (Some [''lint'']) = Inl (Raised ''boom'')"
proof -
  have h1: "broken_taster \<in> set [lint_taster, broken_taster]" by simp
  have h2: "test_project broken_taster demo_project = Inl (Raised ''boom'')"
    by (simp add: broken_taster_def)
  have h3: "list_all (\<lambda>q. get_taster_name q \<noteq> []) [lint_taster, broken_taster]"
    by (simp add: lint_taster_def broken_taster_def)
  have h4: "\<exists>r. test_project lint_taster demo_project = Inr r"
    by (simp add: lint_taster_def)
  from h3 h4 have h: "\<forall>q\<in>set [lint_taster, broken_taster]. get_taster_name q \<noteq> []
         \<and> (q \<noteq> broken_taster \<longrightarrow> (\<exists>r. test_project q demo_project = Inr r))"
    by simp
  from raising_validator_aborts_dispatch [OF h1 h2, of "Some [''lint'']"] h
  have "run_tasters [lint_taster, broken_taster] demo_project (Some [''lint'']) = Inl (Raised ''boom'')"
    by blast
  with h1 h2 h3 h4 show ?thesis by (intro conjI)
qed




lemma two_matches:
  assumes "i < j" and "j < length xs" and "P (xs ! i)" and "P (xs ! j)"
  shows "2 \<le> length (filter P xs)"
proof -
  from assms(1,2) have i: "i < length xs" by simp
  have xs: "xs = take i xs @ xs ! i # drop (Suc i) xs" by (rule id_take_nth_drop [OF i])
  have "xs ! j = drop (Suc i) xs ! (j - Suc i)" using assms(1,2) by simp
  moreover have "j - Suc i < length (drop (Suc i) xs)" using assms(1,2) by simp
  ultimately have "xs ! j \<in> set (drop (Suc i) xs)" by (metis nth_mem)
  with assms(4) have "filter P (drop (Suc i) xs) \<noteq> []" by (auto simp: filter_empty_conv)
  then have "1 \<le> length (filter P (drop (Suc i) xs))" by (cases "filter P (drop (Suc i) xs)") simp_all
  moreover have "length (filter P xs) =
      length (filter P (take i xs)) + length (filter P (xs ! i # drop (Suc i) xs))"
    by (subst xs) simp
  ultimately show ?thesis using assms(3) by simp
qed

text \<open>
  C10. The results are filtered by the plugin's name. When two registered plugins have
  the same name \<open>n\<close> (every name non-empty, no \<^verbatim>\<open>test_project\<close> raising),
  \<^verbatim>\<open>run_tasters\<close> with the names \<open>[n]\<close> returns the results of both, and for every
  list of names the result of one is returned exactly when the result of the other is.
\<close>

theorem same_name_selected_together:
  assumes "\<forall>p\<in>set pm. get_taster_name p \<noteq> []"
    and "\<forall>p\<in>set pm. test_project p project_info = Inr (verdict p)"
    and "i < j" and "j < length pm"
    and "get_taster_name (pm ! i) = n" and "get_taster_name (pm ! j) = n"
  shows "run_tasters pm project_info (Some [n]) =
           Inr (map verdict (filter (\<lambda>p. get_taster_name p = n) (rev pm)))
         \<and> pm ! i \<in> set (filter (\<lambda>p. get_taster_name p = n) (rev pm))
         \<and> pm ! j \<in> set (filter (\<lambda>p. get_taster_name p = n) (rev pm))
         \<and> 2 \<le> length (filter (\<lambda>p. get_taster_name p = n) (rev pm))
         \<and> (\<forall>names. run_tasters pm project_info (Some names) =
               Inr (map verdict (filter (\<lambda>p. get_taster_name p \<in> set names) (rev pm)))
             \<and> (pm ! i \<in> set (filter (\<lambda>p. get_taster_name p \<in> set names) (rev pm))
                  \<longleftrightarrow> pm ! j \<in> set (filter (\<lambda>p. get_taster_name p \<in> set names) (rev pm))))"
proof -
  from assms(3,4) have i: "pm ! i \<in> set pm" and j: "pm ! j \<in> set pm" by simp_all
  have "run_tasters pm project_info (Some [n]) =
           Inr (map verdict (filter (\<lambda>p. get_taster_name p = n) (rev pm)))"
    using run_tasters_names [OF assms(1,2), of "[n]"] by simp
  moreover have "2 \<le> length (filter (\<lambda>p. get_taster_name p = n) pm)"
    using assms(3-6) by (intro two_matches [where i = i and j = j]) simp_all
  then have "2 \<le> length (filter (\<lambda>p. get_taster_name p = n) (rev pm))"
    by (simp add: rev_filter [symmetric])
  moreover have "\<forall>names. run_tasters pm project_info (Some names) =
               Inr (map verdict (filter (\<lambda>p. get_taster_name p \<in> set names) (rev pm)))
             \<and> (pm ! i \<in> set (filter (\<lambda>p. get_taster_name p \<in> set names) (rev pm))
                  \<longleftrightarrow> pm ! j \<in> set (filter (\<lambda>p. get_taster_name p \<in> set names) (rev pm)))"
    using run_tasters_names [OF assms(1,2)] i j assms(5,6) by simp
  ultimately show ?thesis using i j assms(5,6) by simp
qed

theorem same_name_selected_together_witness:
  "list_all (\<lambda>p. get_taster_name p \<noteq> []) [lint_taster, style_taster, idle_lint_taster]
   \<and> list_all (\<lambda>p. test_project p demo_project = Inr (demo_verdict p))
         [lint_taster, style_taster, idle_lint_taster]
   \<and> (0::nat) < 2 \<and> 2 < length [lint_taster, style_taster, idle_lint_taster]
   \<and> get_taster_name ([lint_taster, style_taster, idle_lint_taster] ! 0) = ''lint''
   \<and> get_taster_name ([lint_taster, style_taster, idle_lint_taster] ! 2) = ''lint''
   \<and> run_tasters [lint_taster, style_taster, idle_lint_taster] demo_project (Some [''lint'']) =
       Inr [plain_result ''lint'' FAILURE, plain_result ''lint'' SUCCESS]"
proof -
  let ?pm = "[lint_taster, style_taster, idle_lint_taster]"
  have h1: "\<forall>p\<in>set ?pm. get_taster_name p \<noteq> []"
    by (simp add: lint_taster_def style_taster_def idle_lint_taster_def)
  have h2: "\<forall>p\<in>set ?pm. test_project p demo_project = Inr (demo_verdict p)"
    by (simp add: lint_taster_def style_taster_def idle_lint_taster_def demo_verdict_def)
  have h3: "(0::nat) < 2" by simp
  have h4: "2 < length ?pm" by simp
  have h5: "get_taster_name (?pm ! 0) = ''lint''" by (simp add: lint_taster_def)
  have h6: "get_taster_name (?pm ! 2) = ''lint''" by (simp add: idle_lint_taster_def)
  from same_name_selected_together [OF h1 h2 h3 h4 h5 h6]
  have "run_tasters ?pm demo_project (Some [''lint'']) =
          Inr (map demo_verdict (filter (\<lambda>p. get_taster_name p = ''lint'') (rev ?pm)))"
    by blast
  then have "run_tasters ?pm demo_project (Some [''lint'']) =
       Inr [plain_result ''lint'' FAILURE, plain_result ''lint'' SUCCESS]"
    by (simp add: lint_taster_def style_taster_def idle_lint_taster_def demo_verdict_def)
  with h1 h2 h5 h6 show ?thesis by simp
qed

section \<open>The run coordinator\<close>





end
